theory Spec2Isabelle
  imports Complex_Main
begin

section \<open>Security utilities of the due-diligence platform (src/security.py)\<close>

text \<open>
  The embedding follows \<^verbatim>\<open>src/security.py\<close>: the methods of \<^verbatim>\<open>SecurityManager\<close> and the
  decorator \<^verbatim>\<open>require_valid_input\<close>, under the names of the source.
  \<^item> Python strings are modelled as \<^typ>\<open>string\<close>, read as the strings over the code points
    U+0000 to U+00FF; \<^verbatim>\<open>str.lower\<close>, \<^verbatim>\<open>str.strip\<close> and the classes \<^verbatim>\<open>\w\<close>, \<^verbatim>\<open>\s\<close> are
    those of Python 3 on that range.
  \<^item> The clock reading \<^verbatim>\<open>time.time()\<close> and the client address taken from the request
    environment are explicit arguments. Times are doubles, taken as the real numbers they
    denote; the machine's multiplication and subtraction, which round, are parameters of
    the rate limiter.
  \<^item> A decorated function is modelled up to the call of the function it wraps; an
    exception that leaves it is a value of the result.
\<close>

subsection \<open>Responses\<close>

text \<open>
  A decorated function either returns \<^verbatim>\<open>jsonify(body), status\<close> itself or goes on to
  call the function it wraps. A JSON body is the list of its key/value pairs.
\<close>

datatype jval = JStr string | JNum real

type_synonym json = "(string \<times> jval) list"

datatype 'a outcome = Reject json nat | Proceed 'a

fun is_reject :: "'a outcome \<Rightarrow> bool" where
  "is_reject (Reject b s) = True"
| "is_reject (Proceed x) = False"

subsection \<open>Machine arithmetic\<close>

text \<open>
  \<^verbatim>\<open>time.time()\<close> is a double, and \<^verbatim>\<open>window_minutes * 60\<close> and
  \<^verbatim>\<open>current_time - (window_minutes * 60)\<close> are computed by the machine: the results are
  rounded to doubles, they are not the exact product and difference. Finite doubles are
  real numbers, so times are of type \<^typ>\<open>real\<close>; the two machine operations are
  parameters of the model. Every statement below that is made for an arbitrary
  \<open>ops\<close> holds in particular for the IEEE operations of the interpreter.
  \<^term>\<open>fl_mul ops x y\<close> is what \<^verbatim>\<open>x * y\<close> evaluates to and \<^term>\<open>fl_sub ops x y\<close> what
  \<^verbatim>\<open>x - y\<close> evaluates to. A call in which one of the two operations does not yield a
  finite double (an overflow, a not-a-number, an integer too large to be converted) is
  outside the model: the statements are about calls in which \<^verbatim>\<open>window_start\<close> is a
  finite double.
\<close>

record float_ops =
  fl_mul :: "real \<Rightarrow> real \<Rightarrow> real"
  fl_sub :: "real \<Rightarrow> real \<Rightarrow> real"

text \<open>
  The operations without rounding. They agree with the machine wherever the exact result
  is a double, as for integers below \<open>2\<^sup>5\<^sup>3\<close>; the concrete runs below use them on such
  values only.
\<close>

definition exact_ops :: float_ops where
  "exact_ops = \<lparr>fl_mul = (\<lambda>x y. x * y), fl_sub = (\<lambda>x y. x - y)\<rparr>"

subsection \<open>SecurityManager state and the rate limiter\<close>

text \<open>
  \<^verbatim>\<open>self.rate_limit_storage = defaultdict(list)\<close>: a key never written reads as the
  empty list. \<^verbatim>\<open>self.blocked_ips = set()\<close>.
\<close>

record security_manager =
  rate_limit_storage :: "string \<Rightarrow> real list"
  blocked_ips :: "string set"

definition init_manager :: security_manager where
  "init_manager = \<lparr>rate_limit_storage = (\<lambda>_. []), blocked_ips = {}\<rparr>"

text \<open>
  The list comprehension of \<^verbatim>\<open>rate_limit\<close>:
  \<^verbatim>\<open>[req_time for req_time in self.rate_limit_storage[client_ip] if req_time > window_start]\<close>.
\<close>

definition clean_old_requests :: "real list \<Rightarrow> real \<Rightarrow> real list" where
  "clean_old_requests reqs window_start = filter (\<lambda>req_time. req_time > window_start) reqs"

text \<open>
  \<^verbatim>\<open>decorated_function\<close> of \<^verbatim>\<open>rate_limit(max_requests, window_minutes)\<close>, up to the call
  of the wrapped function (\<^term>\<open>Proceed ()\<close>). The pruned list is written back before the
  limit is checked, so it is stored on rejection as well.
\<close>

definition rate_limit ::
  "float_ops \<Rightarrow> security_manager \<Rightarrow> int \<Rightarrow> real \<Rightarrow> string \<Rightarrow> real
     \<Rightarrow> unit outcome \<times> security_manager" where
  "rate_limit ops self max_requests window_minutes client_ip current_time =
     (if client_ip \<in> blocked_ips self then
        (Reject [(''error'', JStr ''IP blocked due to abuse'')] 429, self)
      else
        let window_start = fl_sub ops current_time (fl_mul ops window_minutes 60);
            cleaned = clean_old_requests (rate_limit_storage self client_ip) window_start;
            self1 = self\<lparr>rate_limit_storage := (rate_limit_storage self)(client_ip := cleaned)\<rparr>
        in
          if int (length cleaned) \<ge> max_requests then
            let self2 = (if int (length cleaned) > max_requests * 2
                         then self1\<lparr>blocked_ips := insert client_ip (blocked_ips self1)\<rparr>
                         else self1)
            in (Reject [(''error'', JStr ''Rate limit exceeded''),
                        (''retry_after'', JNum (fl_mul ops window_minutes 60))] 429, self2)
          else
            (Proceed (),
             self1\<lparr>rate_limit_storage :=
                      (rate_limit_storage self1)(client_ip := cleaned @ [current_time])\<rparr>))"

text \<open>The value of the local variable \<^verbatim>\<open>window_start\<close> in a call of \<^verbatim>\<open>rate_limit\<close>.\<close>

definition window_start :: "float_ops \<Rightarrow> real \<Rightarrow> real \<Rightarrow> real" where
  "window_start ops current_time window_minutes =
     fl_sub ops current_time (fl_mul ops window_minutes 60)"

text \<open>A request as the rate limiter sees it: who calls, under which endpoint policy, when.\<close>

record request =
  req_client :: string
  req_max_requests :: int
  req_window_minutes :: real
  req_time :: real

definition admit ::
  "float_ops \<Rightarrow> security_manager \<Rightarrow> request \<Rightarrow> unit outcome \<times> security_manager" where
  "admit ops self r =
     rate_limit ops self (req_max_requests r) (req_window_minutes r) (req_client r) (req_time r)"

text \<open>Requests served one after the other; the responses are collected in order.\<close>

fun serve ::
  "float_ops \<Rightarrow> security_manager \<Rightarrow> request list \<Rightarrow> unit outcome list \<times> security_manager" where
  "serve ops self [] = ([], self)"
| "serve ops self (r # rs) =
     (let (resp, self1) = admit ops self r;
          (resps, self2) = serve ops self1 rs
      in (resp # resps, self2))"

definition blocked_response :: "unit outcome" where
  "blocked_response = Reject [(''error'', JStr ''IP blocked due to abuse'')] 429"

definition rate_limited_response :: "real \<Rightarrow> unit outcome" where
  "rate_limited_response retry_after =
     Reject [(''error'', JStr ''Rate limit exceeded''), (''retry_after'', JNum retry_after)] 429"

text \<open>The \<^verbatim>\<open>retry_after\<close> entry of a response body, when there is one.\<close>

definition retry_hint :: "'a outcome \<Rightarrow> jval option" where
  "retry_hint r = (case r of Reject body status \<Rightarrow> map_of body ''retry_after'' | Proceed x \<Rightarrow> None)"

definition call :: "string \<Rightarrow> int \<Rightarrow> real \<Rightarrow> real \<Rightarrow> request" where
  "call c m w t = \<lparr>req_client = c, req_max_requests = m, req_window_minutes = w, req_time = t\<rparr>"

text \<open>
  Traffic of one client over two endpoints of \<^verbatim>\<open>routes/due_diligence.py\<close>:
  eleven calls of \<^verbatim>\<open>get_company_profile\<close> (\<^verbatim>\<open>max_requests=30\<close>), then calls of
  \<^verbatim>\<open>analyze_company\<close> (\<^verbatim>\<open>max_requests=5\<close>), the last ones long after the window.
\<close>

definition mixed_endpoint_traffic :: "request list" where
  "mixed_endpoint_traffic =
     map (call ''10.0.0.1'' 30 1) [1, 2, 3, 4, 5, 6, 7, 8, 9, 10, 11]
     @ [call ''10.0.0.1'' 5 1 12, call ''10.0.0.1'' 5 1 1000000, call ''10.0.0.1'' 30 1 2000000]"

subsection \<open>Python values and string primitives\<close>

text \<open>
  The values that reach the validators are request fields: a string, or \<^verbatim>\<open>None\<close> (a JSON
  \<^verbatim>\<open>null\<close>, an absent argument). \<^verbatim>\<open>not v\<close> holds of \<^verbatim>\<open>None\<close> and of the empty string;
  \<^verbatim>\<open>str(None)\<close> is \<^verbatim>\<open>'None'\<close>.
\<close>

datatype pyval = PyNone | PyStr string

fun truthy :: "pyval \<Rightarrow> bool" where
  "truthy PyNone = False"
| "truthy (PyStr s) = (s \<noteq> [])"

fun py_str :: "pyval \<Rightarrow> string" where
  "py_str PyNone = ''None''"
| "py_str (PyStr s) = s"

definition ord :: "char \<Rightarrow> nat" where
  "ord c = of_char c"

text \<open>\<^verbatim>\<open>str.isspace\<close> on the code points below 256; \<^verbatim>\<open>\s\<close> of \<^verbatim>\<open>re\<close> is the same set.\<close>

definition py_isspace :: "char \<Rightarrow> bool" where
  "py_isspace c = (ord c \<in> {9, 10, 11, 12, 13, 28, 29, 30, 31, 32, 133, 160})"

definition py_strip :: "string \<Rightarrow> string" where
  "py_strip s = rev (dropWhile py_isspace (rev (dropWhile py_isspace s)))"

text \<open>\<^verbatim>\<open>s[:m]\<close>: a negative bound counts from the end, and the result is clamped.\<close>

definition py_slice_to :: "string \<Rightarrow> int \<Rightarrow> string" where
  "py_slice_to s m = (if 0 \<le> m then take (nat m) s else take (nat (int (length s) + m)) s)"

text \<open>\<^verbatim>\<open>str.lower\<close> on the code points below 256: A-Z and the Latin-1 capitals but U+00D7.\<close>

definition lower_char :: "char \<Rightarrow> char" where
  "lower_char c =
     (if (65 \<le> ord c \<and> ord c \<le> 90) \<or> (192 \<le> ord c \<and> ord c \<le> 222 \<and> ord c \<noteq> 215)
      then char_of (ord c + 32) else c)"

definition py_lower :: "string \<Rightarrow> string" where
  "py_lower s = map lower_char s"

text \<open>\<^verbatim>\<open>re.sub(cls, '', s)\<close> for a pattern \<^verbatim>\<open>cls\<close> that is one character class.\<close>

definition re_sub_class :: "(char \<Rightarrow> bool) \<Rightarrow> string \<Rightarrow> string" where
  "re_sub_class cls s = filter (\<lambda>c. \<not> cls c) s"

subsection \<open>validate_input\<close>

text \<open>The class \<^verbatim>\<open>[\x00-\x08\x0B\x0C\x0E-\x1F\x7F]\<close>.\<close>

definition is_control_char :: "char \<Rightarrow> bool" where
  "is_control_char c =
     (ord c \<le> 8 \<or> ord c = 11 \<or> ord c = 12 \<or> (14 \<le> ord c \<and> ord c \<le> 31) \<or> ord c = 127)"

text \<open>The class \<^verbatim>\<open>[<>"\';()&+]\<close>: nine characters, the semicolon among them.\<close>

definition special_chars :: "char list" where
  "special_chars =
     [CHR ''<'', CHR ''>'', CHR 0x22, CHR 0x27, CHR '';'', CHR ''('', CHR '')'', CHR ''&'', CHR ''+'']"

definition is_special_char :: "char \<Rightarrow> bool" where
  "is_special_char c = (c \<in> set special_chars)"

definition validate_input :: "pyval \<Rightarrow> int \<Rightarrow> bool \<Rightarrow> string" where
  "validate_input input_string max_length allow_special_chars =
     (if \<not> truthy input_string then []
      else
        let cleaned = re_sub_class is_control_char (py_str input_string);
            cleaned = (if int (length cleaned) > max_length
                       then py_slice_to cleaned max_length else cleaned);
            cleaned = (if \<not> allow_special_chars
                       then re_sub_class is_special_char cleaned else cleaned)
        in py_strip cleaned)"

subsection \<open>Regular expressions of the module\<close>

text \<open>
  The patterns of the module are sequences of quantified one-character atoms and anchors.
  \<^term>\<open>Rep a lo hi\<close> is the atom repeated at least \<open>lo\<close> and at most \<open>hi\<close> times
  (\<^term>\<open>None\<close>: no upper bound). Only whether a match exists is observed, so greedy and lazy
  matching need not be told apart.
\<close>

datatype atom = Lit char | Word | Space | AsciiAlnum

datatype item = Rep atom nat "nat option" | Bol | Eol

abbreviation One :: "atom \<Rightarrow> item" where "One a \<equiv> Rep a 1 (Some 1)"
abbreviation Star :: "atom \<Rightarrow> item" where "Star a \<equiv> Rep a 0 None"
abbreviation Plus :: "atom \<Rightarrow> item" where "Plus a \<equiv> Rep a 1 None"

text \<open>\<^verbatim>\<open>\w\<close> on the code points below 256 (\<^verbatim>\<open>str\<close> patterns are Unicode-aware).\<close>

definition is_word_char :: "char \<Rightarrow> bool" where
  "is_word_char c =
     ((48 \<le> ord c \<and> ord c \<le> 57) \<or> (65 \<le> ord c \<and> ord c \<le> 90) \<or> ord c = 95
      \<or> (97 \<le> ord c \<and> ord c \<le> 122)
      \<or> ord c \<in> {170, 178, 179, 181, 185, 186, 188, 189, 190}
      \<or> (192 \<le> ord c \<and> ord c \<le> 214) \<or> (216 \<le> ord c \<and> ord c \<le> 246) \<or> 248 \<le> ord c)"

definition is_ascii_alnum :: "char \<Rightarrow> bool" where
  "is_ascii_alnum c =
     ((65 \<le> ord c \<and> ord c \<le> 90) \<or> (97 \<le> ord c \<and> ord c \<le> 122) \<or> (48 \<le> ord c \<and> ord c \<le> 57))"

fun atom_matches :: "atom \<Rightarrow> char \<Rightarrow> bool" where
  "atom_matches (Lit x) c = (c = x)"
| "atom_matches Word c = is_word_char c"
| "atom_matches Space c = py_isspace c"
| "atom_matches AsciiAlnum c = is_ascii_alnum c"

text \<open>
  Matching a pattern at the current position; the flag says whether that position is the
  start of the string. \<^verbatim>\<open>$\<close> (without the multi-line flag) matches at the end of the string and just
  before a newline that ends the string.
\<close>

fun match_here :: "bool \<Rightarrow> item list \<Rightarrow> string \<Rightarrow> bool" where
  "match_here at_start [] s = True"
| "match_here at_start (Bol # r) s = (at_start \<and> match_here at_start r s)"
| "match_here at_start (Eol # r) s = ((s = [] \<or> s = [CHR 0x0A]) \<and> match_here at_start r s)"
| "match_here at_start (Rep a lo hi # r) s =
     ((lo = 0 \<and> match_here at_start r s)
      \<or> (hi \<noteq> Some 0 \<and>
          (case s of [] \<Rightarrow> False
           | c # cs \<Rightarrow> atom_matches a c
                \<and> match_here False (Rep a (lo - 1) (map_option (\<lambda>h. h - 1) hi) # r) cs)))"

text \<open>\<^verbatim>\<open>re.match\<close> tries the start of the string only, \<^verbatim>\<open>re.search\<close> every position.\<close>

definition re_match :: "item list \<Rightarrow> string \<Rightarrow> bool" where
  "re_match pat s = match_here True pat s"

fun search_from :: "bool \<Rightarrow> item list \<Rightarrow> string \<Rightarrow> bool" where
  "search_from at_start pat [] = match_here at_start pat []"
| "search_from at_start pat (c # cs) = (match_here at_start pat (c # cs) \<or> search_from False pat cs)"

definition re_search :: "item list \<Rightarrow> string \<Rightarrow> bool" where
  "re_search pat s = search_from True pat s"

subsection \<open>validate_symbol\<close>

text \<open>The pattern \<^verbatim>\<open>^[A-Za-z0-9]{1,10}$\<close>.\<close>

definition symbol_pattern :: "item list" where
  "symbol_pattern = [Bol, Rep AsciiAlnum 1 (Some 10), Eol]"

definition validate_symbol :: "pyval \<Rightarrow> bool" where
  "validate_symbol symbol =
     (if \<not> truthy symbol then False else re_match symbol_pattern (py_str symbol))"

subsection \<open>check_suspicious_activity\<close>

text \<open>
  Each entry of \<^verbatim>\<open>suspicious_patterns\<close> is kept as the text of the raw string, which the
  reason message quotes, together with the pattern it denotes.
\<close>

record pattern =
  source :: string
  compiled :: "item list"

definition lits :: "string \<Rightarrow> item list" where
  "lits s = map (\<lambda>c. One (Lit c)) s"

definition backslash :: char where
  "backslash = CHR 0x5C"

definition suspicious_patterns :: "pattern list" where
  "suspicious_patterns =
     [\<lparr>source = ''<script'', compiled = lits ''<script''\<rparr>,
      \<lparr>source = ''javascript:'', compiled = lits ''javascript:''\<rparr>,
      \<lparr>source = ''on'' @ [backslash] @ ''w+'' @ [backslash] @ ''s*='',
       compiled = lits ''on'' @ [Plus Word, Star Space] @ lits ''=''\<rparr>,
      \<lparr>source = ''eval'' @ [backslash] @ ''s*'' @ [backslash] @ ''('',
       compiled = lits ''eval'' @ [Star Space] @ lits ''(''\<rparr>,
      \<lparr>source = ''document'' @ [backslash] @ ''.'', compiled = lits ''document.''\<rparr>,
      \<lparr>source = ''window'' @ [backslash] @ ''.'', compiled = lits ''window.''\<rparr>,
      \<lparr>source = [backslash] @ ''.'' @ [backslash] @ ''./'', compiled = lits ''../''\<rparr>,
      \<lparr>source = ''union'' @ [backslash] @ ''s+select'',
       compiled = lits ''union'' @ [Plus Space] @ lits ''select''\<rparr>,
      \<lparr>source = ''drop'' @ [backslash] @ ''s+table'',
       compiled = lits ''drop'' @ [Plus Space] @ lits ''table''\<rparr>,
      \<lparr>source = ''insert'' @ [backslash] @ ''s+into'',
       compiled = lits ''insert'' @ [Plus Space] @ lits ''into''\<rparr>,
      \<lparr>source = ''delete'' @ [backslash] @ ''s+from'',
       compiled = lits ''delete'' @ [Plus Space] @ lits ''from''\<rparr>]"

text \<open>The \<^verbatim>\<open>for\<close> loop over the patterns, returning at the first one found.\<close>

fun first_suspicious :: "pattern list \<Rightarrow> string \<Rightarrow> bool \<times> string" where
  "first_suspicious [] user_input_lower = (False, ''Clean'')"
| "first_suspicious (p # ps) user_input_lower =
     (if re_search (compiled p) user_input_lower
      then (True, ''Suspicious pattern detected: '' @ source p)
      else first_suspicious ps user_input_lower)"

definition check_suspicious_activity :: "string \<Rightarrow> bool \<times> string" where
  "check_suspicious_activity user_input =
     (let user_input_lower = py_lower user_input
      in first_suspicious suspicious_patterns user_input_lower)"

subsection \<open>require_valid_input\<close>

text \<open>\<^verbatim>\<open>sub in s\<close> on strings.\<close>

fun contains :: "string \<Rightarrow> string \<Rightarrow> bool" where
  "contains [] sub = (sub = [])"
| "contains (c # cs) sub = (take (length sub) (c # cs) = sub \<or> contains cs sub)"

text \<open>
  A field value: \<^verbatim>\<open>None\<close> or a string, or any other JSON value (a number, a boolean, an
  array, an object). Of a value of the second kind the code observes its truth value
  (\<^verbatim>\<open>not v\<close>) and its text \<^verbatim>\<open>str(v)\<close>, which is not empty, and nothing else; the value is
  given by these two.
\<close>

datatype field_value = Val pyval | Other bool string

fun value_str :: "field_value \<Rightarrow> string" where
  "value_str (Val v) = py_str v"
| "value_str (Other truth text) = text"

text \<open>
  \<^verbatim>\<open>validate_input(value, ...)\<close> on a field value. On a value that is neither \<^verbatim>\<open>None\<close> nor
  a string the function returns \<^verbatim>\<open>""\<close> when \<^verbatim>\<open>not value\<close> holds and otherwise goes on
  with \<^verbatim>\<open>str(value)\<close>, as it does on that string.
\<close>

fun validate_input_value :: "field_value \<Rightarrow> int \<Rightarrow> bool \<Rightarrow> string" where
  "validate_input_value (Val v) max_length allow_special_chars =
     validate_input v max_length allow_special_chars"
| "validate_input_value (Other truth text) max_length allow_special_chars =
     (if truth then validate_input (PyStr text) max_length allow_special_chars else [])"

text \<open>
  What \<^verbatim>\<open>request.get_json()\<close> returns: any JSON document, not only an object
  (\<^term>\<open>JsonScalar\<close> stands for a number or a boolean).
\<close>

datatype json_document =
    JsonObject "string \<rightharpoonup> field_value"
  | JsonArray "field_value list"
  | JsonString string
  | JsonNull
  | JsonScalar

text \<open>
  The exceptions that leave the decorator, which has no \<^verbatim>\<open>try\<close>: \<^verbatim>\<open>TypeError\<close> and
  \<^verbatim>\<open>KeyError\<close> of the interpreter (answered with status 500 by the framework), and
  \<^verbatim>\<open>BadRequest\<close>, with which \<^verbatim>\<open>get_json()\<close> aborts on a body that does not parse.
\<close>

datatype exception = TypeError | KeyError | BadRequest

text \<open>
  The request as the decorator reads it: \<^verbatim>\<open>request.is_json\<close>, the JSON document of the
  body (\<^term>\<open>None\<close> when the body does not parse) and the form, a dictionary of strings.
\<close>

record flask_request =
  is_json :: bool
  json_body :: "json_document option"
  form :: "string \<rightharpoonup> string"

type_synonym security_event = "string \<times> string"

datatype request_data = JsonData json_document | FormData "string \<rightharpoonup> string"

text \<open>\<^verbatim>\<open>data = request.get_json() if request.is_json else request.form\<close>.\<close>

definition get_data :: "flask_request \<Rightarrow> exception + request_data" where
  "get_data request =
     (if is_json request
      then (case json_body request of None \<Rightarrow> Inl BadRequest | Some d \<Rightarrow> Inr (JsonData d))
      else Inr (FormData (form request)))"

text \<open>
  \<^verbatim>\<open>field_name in data\<close>: a key test on a dictionary, an element test on a list, a
  substring test on a string, and a \<^verbatim>\<open>TypeError\<close> on \<^verbatim>\<open>None\<close>, a number or a boolean.
\<close>

fun field_in :: "string \<Rightarrow> request_data \<Rightarrow> exception + bool" where
  "field_in field_name (JsonData (JsonObject d)) = Inr (d field_name \<noteq> None)"
| "field_in field_name (JsonData (JsonArray xs)) = Inr (Val (PyStr field_name) \<in> set xs)"
| "field_in field_name (JsonData (JsonString s)) = Inr (contains s field_name)"
| "field_in field_name (JsonData JsonNull) = Inl TypeError"
| "field_in field_name (JsonData JsonScalar) = Inl TypeError"
| "field_in field_name (FormData d) = Inr (d field_name \<noteq> None)"

text \<open>
  \<^verbatim>\<open>data[field_name]\<close> with a string index: the value on a dictionary, a
  \<^verbatim>\<open>TypeError\<close> on a list and on a string.
\<close>

fun get_item :: "request_data \<Rightarrow> string \<Rightarrow> exception + field_value" where
  "get_item (JsonData (JsonObject d)) field_name =
     (case d field_name of None \<Rightarrow> Inl KeyError | Some v \<Rightarrow> Inr v)"
| "get_item (JsonData (JsonArray xs)) field_name = Inl TypeError"
| "get_item (JsonData (JsonString s)) field_name = Inl TypeError"
| "get_item (JsonData JsonNull) field_name = Inl TypeError"
| "get_item (JsonData JsonScalar) field_name = Inl TypeError"
| "get_item (FormData d) field_name =
     (case d field_name of None \<Rightarrow> Inl KeyError | Some s \<Rightarrow> Inr (Val (PyStr s)))"

text \<open>
  \<^verbatim>\<open>request.json[field_name] = cleaned_value\<close>, or the same assignment on a copy of the
  form that replaces \<^verbatim>\<open>request.form\<close>. The assignment is reached with an object or a form
  only: on every other document the lookup before it has raised.
\<close>

definition update_request_data :: "flask_request \<Rightarrow> string \<Rightarrow> string \<Rightarrow> flask_request" where
  "update_request_data request field_name cleaned_value =
     (if is_json request
      then (case json_body request of
              Some (JsonObject d) \<Rightarrow>
                request\<lparr>json_body := Some (JsonObject (d(field_name \<mapsto> Val (PyStr cleaned_value))))\<rparr>
            | _ \<Rightarrow> request)
      else request\<lparr>form := (form request)(field_name \<mapsto> cleaned_value)\<rparr>)"

text \<open>
  \<^verbatim>\<open>decorated_function\<close> of \<^verbatim>\<open>require_valid_input\<close>, up to the call of the wrapped
  function. A call raises, or returns its outcome and the security events it logged
  (\<^verbatim>\<open>event_type\<close>, \<^verbatim>\<open>details\<close>); the time stamp and the address that
  \<^verbatim>\<open>log_security_event\<close> adds to the printed line come from the environment.
\<close>

definition require_valid_input ::
  "string \<Rightarrow> int \<Rightarrow> bool \<Rightarrow> flask_request
     \<Rightarrow> exception + (flask_request outcome \<times> security_event list)" where
  "require_valid_input field_name max_length allow_special_chars request =
     (case get_data request of
        Inl e \<Rightarrow> Inl e
      | Inr data \<Rightarrow>
          (case field_in field_name data of
             Inl e \<Rightarrow> Inl e
           | Inr present \<Rightarrow>
               if present then
                 (case get_item data field_name of
                    Inl e \<Rightarrow> Inl e
                  | Inr v \<Rightarrow>
                      let (is_suspicious, reason) = check_suspicious_activity (value_str v) in
                      if is_suspicious then
                        Inr (Reject [(''error'', JStr ''Invalid input detected'')] 400,
                             [(''SUSPICIOUS_INPUT'',
                               ''Field: '' @ field_name @ '', Reason: '' @ reason
                                 @ '', Value: '' @ py_slice_to (value_str v) 100)])
                      else
                        let cleaned_value =
                              validate_input_value v max_length allow_special_chars
                        in Inr (Proceed (update_request_data request field_name cleaned_value), []))
               else
                 Inr (Reject [(''error'', JStr (''Missing required field: '' @ field_name))] 400,
                      [])))"

subsection \<open>The sanitizer as the specification words it\<close>

text \<open>
  The pipeline of the specification, with the list of characters removed in step (c) as a
  parameter: (a) remove the control characters 0x00-0x08, 0x0B, 0x0C, 0x0E-0x1F, 0x7F;
  (b) truncate to \<open>max_length\<close> characters; (c) unless special characters are allowed, remove
  every occurrence of the listed characters; (d) strip leading and trailing whitespace.
  An absent or empty input gives the empty string.
\<close>

definition spec_control_codes :: "nat set" where
  "spec_control_codes = {0..8} \<union> {11, 12} \<union> {14..31} \<union> {127}"

definition sanitize_pipeline :: "char list \<Rightarrow> pyval \<Rightarrow> int \<Rightarrow> bool \<Rightarrow> string" where
  "sanitize_pipeline denylist raw max_length allow_special_chars =
     (case raw of
        PyNone \<Rightarrow> []
      | PyStr s \<Rightarrow>
          if s = [] then []
          else
            let a = filter (\<lambda>c. ord c \<notin> spec_control_codes) s;
                b = take (nat max_length) a;
                c = (if allow_special_chars then b else filter (\<lambda>x. x \<notin> set denylist) b)
            in py_strip c)"

text \<open>The characters the specification lists for step (c): \<^verbatim>\<open>< > " ' ( ) & +\<close>.\<close>

definition spec_denylist :: "char list" where
  "spec_denylist = [CHR ''<'', CHR ''>'', CHR 0x22, CHR 0x27, CHR ''('', CHR '')'', CHR ''&'', CHR ''+'']"

definition sanitize_spec :: "pyval \<Rightarrow> int \<Rightarrow> bool \<Rightarrow> string" where
  "sanitize_spec = sanitize_pipeline spec_denylist"

section \<open>Properties of the rate limiter\<close>

subsection \<open>Auxiliary facts\<close>

lemma exact_ops_simps:
  "fl_mul exact_ops x y = x * y" "fl_sub exact_ops x y = x - y"
  by (simp_all add: exact_ops_def)

lemma window_start_exact: "window_start exact_ops t w = t - w * 60"
  by (simp add: window_start_def exact_ops_simps)

lemma serve_Cons_fst:
  "fst (serve ops self (r # rs)) = fst (admit ops self r) # fst (serve ops (snd (admit ops self r)) rs)"
  by (simp add: case_prod_beta)

lemma serve_Cons_snd: "snd (serve ops self (r # rs)) = snd (serve ops (snd (admit ops self r)) rs)"
  by (simp add: case_prod_beta)

lemma serve_length: "length (fst (serve ops self rs)) = length rs"
  by (induction rs arbitrary: self) (simp_all add: serve_Cons_fst del: serve.simps(2))

lemma rate_limit_blocked:
  "c \<in> blocked_ips self \<Longrightarrow> rate_limit ops self m w c t = (blocked_response, self)"
  by (simp add: rate_limit_def blocked_response_def)

lemma rate_limit_reject:
  assumes "c \<notin> blocked_ips self"
    and "int (length (clean_old_requests (rate_limit_storage self c) (window_start ops t w))) \<ge> m"
  shows "fst (rate_limit ops self m w c t) = rate_limited_response (fl_mul ops w 60)"
    and "rate_limit_storage (snd (rate_limit ops self m w c t)) =
           (rate_limit_storage self)
             (c := clean_old_requests (rate_limit_storage self c) (window_start ops t w))"
    and "blocked_ips (snd (rate_limit ops self m w c t)) =
           (if int (length (clean_old_requests (rate_limit_storage self c) (window_start ops t w)))
                 > m * 2
            then insert c (blocked_ips self) else blocked_ips self)"
  using assms
  by (simp_all add: rate_limit_def rate_limited_response_def window_start_def Let_def)

lemma rate_limit_proceed:
  assumes "c \<notin> blocked_ips self"
    and "int (length (clean_old_requests (rate_limit_storage self c) (window_start ops t w))) < m"
  shows "fst (rate_limit ops self m w c t) = Proceed ()"
    and "rate_limit_storage (snd (rate_limit ops self m w c t)) =
           (rate_limit_storage self)
             (c := clean_old_requests (rate_limit_storage self c) (window_start ops t w) @ [t])"
    and "blocked_ips (snd (rate_limit ops self m w c t)) = blocked_ips self"
  using assms by (simp_all add: rate_limit_def window_start_def Let_def)

text \<open>
  Rounding can move \<^verbatim>\<open>window_start\<close> onto a logged entry that the exact difference would
  leave inside the window (a clock near \<open>1.7 \<times> 10\<^sup>9\<close> and a window of \<open>0.06\<close> seconds, say).
  The entry is then pruned, and a call that would otherwise meet the limit proceeds.
\<close>

lemma entry_at_rounded_window_start_is_pruned:
  assumes "c \<notin> blocked_ips self"
    and "rate_limit_storage self c = [t1]"
    and "window_start ops now w = t1"
    and "0 < m"
  shows "fst (rate_limit ops self m w c now) = Proceed ()"
    and "rate_limit_storage (snd (rate_limit ops self m w c now)) c = [now]"
  using assms by (simp_all add: rate_limit_def window_start_def clean_old_requests_def Let_def)

lemma blocked_mono_admit: "blocked_ips self \<subseteq> blocked_ips (snd (admit ops self r))"
  by (auto simp add: admit_def rate_limit_def Let_def)

lemma blocked_mono_serve: "blocked_ips self \<subseteq> blocked_ips (snd (serve ops self rs))"
proof (induction rs arbitrary: self)
  case Nil
  show ?case by simp
next
  case (Cons r rs)
  have "blocked_ips self \<subseteq> blocked_ips (snd (admit ops self r))" by (rule blocked_mono_admit)
  also have "\<dots> \<subseteq> blocked_ips (snd (serve ops (snd (admit ops self r)) rs))" by (rule Cons.IH)
  finally show ?case by (simp only: serve_Cons_snd)
qed

lemma blocked_serve_responses:
  "c \<in> blocked_ips self \<Longrightarrow> i < length rs \<Longrightarrow> req_client (rs ! i) = c \<Longrightarrow>
     fst (serve ops self rs) ! i = blocked_response"
proof (induction rs arbitrary: self i)
  case Nil
  then show ?case by simp
next
  case (Cons r rs)
  have in1: "c \<in> blocked_ips (snd (admit ops self r))"
    using Cons.prems(1) blocked_mono_admit by blast
  show ?case
  proof (cases i)
    case 0
    with Cons.prems show ?thesis
      by (simp add: serve_Cons_fst admit_def rate_limit_blocked del: serve.simps)
  next
    case (Suc j)
    with Cons.prems Cons.IH[OF in1, of j] show ?thesis
      by (simp add: serve_Cons_fst del: serve.simps)
  qed
qed

lemma escalation:
  assumes "int (length (clean_old_requests (rate_limit_storage self c) (window_start ops t w))) > 2 * m"
  shows "is_reject (fst (rate_limit ops self m w c t))"
    and "c \<in> blocked_ips (snd (rate_limit ops self m w c t))"
proof -
  let ?n = "int (length (clean_old_requests (rate_limit_storage self c) (window_start ops t w)))"
  have ge: "?n \<ge> m" using assms by linarith
  show "is_reject (fst (rate_limit ops self m w c t))"
    using ge by (simp add: rate_limit_def window_start_def Let_def)
  show "c \<in> blocked_ips (snd (rate_limit ops self m w c t))"
    using ge assms by (simp add: rate_limit_def window_start_def Let_def mult.commute)
qed

lemma serve_append_fst:
  "fst (serve ops self (xs @ ys))
     = fst (serve ops self xs) @ fst (serve ops (snd (serve ops self xs)) ys)"
  by (induction xs arbitrary: self) (simp_all add: serve_Cons_fst serve_Cons_snd del: serve.simps(2))

lemma serve_append_snd:
  "snd (serve ops self (xs @ ys)) = snd (serve ops (snd (serve ops self xs)) ys)"
  by (induction xs arbitrary: self) (simp_all add: serve_Cons_snd del: serve.simps(2))

lemma clean_all_kept:
  "\<forall>u\<in>set L. a < u \<Longrightarrow> clean_old_requests L a = L"
  by (simp add: clean_old_requests_def)

lemma clean_length: "length (clean_old_requests L a) \<le> length L"
  by (simp add: clean_old_requests_def)

lemma admit_call: "admit ops self (call c m w t) = rate_limit ops self m w c t"
  by (simp add: admit_def call_def)

text \<open>
  While every logged entry and every call time lies inside the window computed for each
  call, and the limit leaves room, all calls proceed and are appended.
\<close>

lemma admits_while_below_limit:
  assumes "c \<notin> blocked_ips self"
    and "\<forall>t\<in>set ts. \<forall>u\<in>set (rate_limit_storage self c). window_start ops t w < u"
    and "\<forall>t\<in>set ts. \<forall>u\<in>set ts. window_start ops t w < u"
    and "int (length (rate_limit_storage self c) + length ts) \<le> m"
  shows "fst (serve ops self (map (call c m w) ts)) = replicate (length ts) (Proceed ())
       \<and> rate_limit_storage (snd (serve ops self (map (call c m w) ts))) c
           = rate_limit_storage self c @ ts
       \<and> blocked_ips (snd (serve ops self (map (call c m w) ts))) = blocked_ips self"
  using assms
proof (induction ts arbitrary: self)
  case Nil
  show ?case by simp
next
  case (Cons t ts)
  let ?L = "rate_limit_storage self c"
  let ?self1 = "snd (rate_limit ops self m w c t)"
  have cl: "clean_old_requests ?L (window_start ops t w) = ?L"
    using Cons.prems(2) by (intro clean_all_kept) simp
  have below: "int (length (clean_old_requests ?L (window_start ops t w))) < m"
    using Cons.prems(4) cl by simp
  note step = rate_limit_proceed[OF Cons.prems(1) below]
  have log1: "rate_limit_storage ?self1 c = ?L @ [t]"
    using step(2) cl by simp
  have nb1: "c \<notin> blocked_ips ?self1"
    using step(3) Cons.prems(1) by simp
  have in1: "\<forall>t'\<in>set ts. \<forall>u\<in>set (rate_limit_storage ?self1 c). window_start ops t' w < u"
    using Cons.prems(2,3) by (simp add: log1)
  have win1: "\<forall>t'\<in>set ts. \<forall>u\<in>set ts. window_start ops t' w < u"
    using Cons.prems(3) by simp
  have len1: "int (length (rate_limit_storage ?self1 c) + length ts) \<le> m"
    using Cons.prems(4) by (simp add: log1)
  note IH = Cons.IH[OF nb1 in1 win1 len1]
  show ?case
    using IH step(1,3) log1
    by (simp add: serve_Cons_fst serve_Cons_snd admit_call del: serve.simps(2))
qed

lemma sorted_hd_le: "sorted (xs::real list) \<Longrightarrow> x \<in> set xs \<Longrightarrow> hd xs \<le> x"
  by (cases xs) auto

lemma sorted_le_last: "sorted (xs::real list) \<Longrightarrow> x \<in> set xs \<Longrightarrow> x \<le> last xs"
  by (induction xs) (auto split: if_splits)

text \<open>
  Without rounding, calls at non-decreasing times lie in one window as soon as the window
  of the last call starts before the first call.
\<close>

lemma within_window:
  assumes "sorted (ts::real list)" and "last ts - w * 60 < hd ts" and "t \<in> set ts" and "u \<in> set ts"
  shows "window_start exact_ops t w < u"
proof -
  have "t \<le> last ts" using assms(1,3) by (rule sorted_le_last)
  moreover have "hd ts \<le> u" using assms(1,4) by (rule sorted_hd_le)
  ultimately show ?thesis using assms(2) by (simp add: window_start_exact)
qed

text \<open>
  Rounding to nearest is monotone. For operations under which a later clock gives no
  earlier \<^verbatim>\<open>window_start\<close>, calls at non-decreasing times lie in one window as soon as the
  window computed for the last call starts before the first call.
\<close>

lemma one_window_from_last_call:
  assumes mono: "\<forall>a b. a \<le> b \<longrightarrow> window_start ops a w \<le> window_start ops b w"
    and srt: "sorted (ts::real list)"
    and span: "window_start ops (last ts) w < hd ts"
  shows "\<forall>t\<in>set ts. \<forall>u\<in>set ts. window_start ops t w < u"
proof (intro ballI)
  fix t u assume t: "t \<in> set ts" and u: "u \<in> set ts"
  have "t \<le> last ts" using srt t by (rule sorted_le_last)
  then have "window_start ops t w \<le> window_start ops (last ts) w" using mono by blast
  moreover have "hd ts \<le> u" using srt u by (rule sorted_hd_le)
  ultimately show "window_start ops t w < u" using span by linarith
qed

lemma rate_limit_keeps_bound:
  assumes m: "0 \<le> m"
    and inv: "int (length (rate_limit_storage self c)) \<le> m" "c \<notin> blocked_ips self"
  shows "int (length (rate_limit_storage (snd (rate_limit ops self m w c t)) c)) \<le> m
       \<and> c \<notin> blocked_ips (snd (rate_limit ops self m w c t))"
proof -
  let ?cl = "clean_old_requests (rate_limit_storage self c) (window_start ops t w)"
  have le: "int (length ?cl) \<le> m"
    using inv(1) clean_length[of "rate_limit_storage self c" "window_start ops t w"] by linarith
  show ?thesis
  proof (cases "int (length ?cl) \<ge> m")
    case True
    note R = rate_limit_reject[OF inv(2) True]
    have "\<not> int (length ?cl) > m * 2" using le m by linarith
    then show ?thesis using R le inv(2) by simp
  next
    case False
    then have lt: "int (length ?cl) < m" by simp
    note P = rate_limit_proceed[OF inv(2) lt]
    show ?thesis using P lt inv(2) by simp
  qed
qed

lemma rejection_never_appends:
  "is_reject (fst (rate_limit ops self m w c t)) \<Longrightarrow>
     length (rate_limit_storage (snd (rate_limit ops self m w c t)) c)
       \<le> length (rate_limit_storage self c)"
  by (auto simp add: rate_limit_def Let_def clean_length split: if_splits)

text \<open>The run of \<^term>\<open>mixed_endpoint_traffic\<close>, step by step.\<close>

lemma mixed_endpoint_run:
  "fst (serve exact_ops init_manager mixed_endpoint_traffic)
     = replicate 11 (Proceed ()) @ [rate_limited_response 60, blocked_response, blocked_response]
   \<and> rate_limit_storage (snd (serve exact_ops init_manager (take 11 mixed_endpoint_traffic))) ''10.0.0.1''
       = [1, 2, 3, 4, 5, 6, 7, 8, 9, 10, 11]
   \<and> ''10.0.0.1'' \<notin> blocked_ips (snd (serve exact_ops init_manager (take 11 mixed_endpoint_traffic)))
   \<and> ''10.0.0.1'' \<in> blocked_ips (snd (serve exact_ops init_manager (take 12 mixed_endpoint_traffic)))
   \<and> ''10.0.0.1'' \<in> blocked_ips (snd (serve exact_ops init_manager mixed_endpoint_traffic))"
proof -
  let ?c = "''10.0.0.1''"
  define ts :: "real list" where "ts = [1, 2, 3, 4, 5, 6, 7, 8, 9, 10, 11]"
  define pre where "pre = map (call ?c 30 1) ts"
  define s11 where "s11 = snd (serve exact_ops init_manager pre)"
  have len: "length ts = 11" by (simp add: ts_def)
  have nb0: "?c \<notin> blocked_ips init_manager" by (simp add: init_manager_def)
  have log0: "rate_limit_storage init_manager ?c = []" by (simp add: init_manager_def)
  have a2: "\<forall>t\<in>set ts. \<forall>u\<in>set (rate_limit_storage init_manager ?c). window_start exact_ops t 1 < u"
    by (simp add: log0)
  have srt: "sorted ts" by (simp add: ts_def)
  have span: "last ts - 1 * 60 < hd ts" by (simp add: ts_def)
  have a3: "\<forall>t\<in>set ts. \<forall>u\<in>set ts. window_start exact_ops t 1 < u"
    using within_window[OF srt span] by blast
  have a4: "int (length (rate_limit_storage init_manager ?c) + length ts) \<le> 30"
    by (simp add: len log0)
  note A = admits_while_below_limit[OF nb0 a2 a3 a4, folded pre_def, folded s11_def]
  have r11: "fst (serve exact_ops init_manager pre) = replicate 11 (Proceed ())"
    using A len by simp
  have log11: "rate_limit_storage s11 ?c = ts" using A log0 by simp
  have nb11: "?c \<notin> blocked_ips s11" using A nb0 by simp
  have cl: "clean_old_requests (rate_limit_storage s11 ?c) (window_start exact_ops 12 1) = ts"
    unfolding log11 by (simp add: clean_old_requests_def ts_def window_start_exact)
  have over: "int (length (clean_old_requests (rate_limit_storage s11 ?c) (window_start exact_ops 12 1)))
                \<ge> 5"
    unfolding cl by (simp add: len)
  note R = rate_limit_reject[OF nb11 over]
  define s12 where "s12 = snd (rate_limit exact_ops s11 5 1 ?c 12)"
  have r12: "fst (rate_limit exact_ops s11 5 1 ?c 12) = rate_limited_response 60"
    using R(1) by (simp add: exact_ops_simps)
  have b12: "?c \<in> blocked_ips s12" using R(3) unfolding cl s12_def by (simp add: len)
  have s13: "rate_limit exact_ops s12 5 1 ?c 1000000 = (blocked_response, s12)"
    using b12 by (rule rate_limit_blocked)
  have s14: "rate_limit exact_ops s12 30 1 ?c 2000000 = (blocked_response, s12)"
    using b12 by (rule rate_limit_blocked)
  have tail: "serve exact_ops s11 [call ?c 5 1 12, call ?c 5 1 1000000, call ?c 30 1 2000000]
                = ([rate_limited_response 60, blocked_response, blocked_response], s12)"
    by (simp add: admit_call r12 s13 s14 case_prod_beta s12_def[symmetric])
  have one: "snd (serve exact_ops s11 [call ?c 5 1 12]) = s12"
    by (simp add: admit_call case_prod_beta s12_def)
  have whole: "mixed_endpoint_traffic = pre @ [call ?c 5 1 12, call ?c 5 1 1000000, call ?c 30 1 2000000]"
    by (simp add: mixed_endpoint_traffic_def pre_def ts_def)
  have lpre: "length pre = 11" by (simp add: pre_def len)
  have t11: "take 11 mixed_endpoint_traffic = pre"
    unfolding whole using lpre by simp
  have t12: "take 12 mixed_endpoint_traffic = pre @ [call ?c 5 1 12]"
    unfolding whole using lpre by simp
  have full_fst: "fst (serve exact_ops init_manager mixed_endpoint_traffic)
     = replicate 11 (Proceed ()) @ [rate_limited_response 60, blocked_response, blocked_response]"
    unfolding whole by (simp only: serve_append_fst r11 s11_def[symmetric] tail fst_conv)
  have full_snd: "snd (serve exact_ops init_manager mixed_endpoint_traffic) = s12"
    unfolding whole by (simp only: serve_append_snd s11_def[symmetric] tail snd_conv)
  have snd12: "snd (serve exact_ops init_manager (pre @ [call ?c 5 1 12])) = s12"
    by (simp only: serve_append_snd s11_def[symmetric] one)
  have log11': "rate_limit_storage (snd (serve exact_ops init_manager (take 11 mixed_endpoint_traffic))) ?c
       = [1, 2, 3, 4, 5, 6, 7, 8, 9, 10, 11]"
    unfolding t11 s11_def[symmetric] log11 by (simp add: ts_def)
  have nb11': "?c \<notin> blocked_ips (snd (serve exact_ops init_manager (take 11 mixed_endpoint_traffic)))"
    unfolding t11 s11_def[symmetric] by (rule nb11)
  have b12': "?c \<in> blocked_ips (snd (serve exact_ops init_manager (take 12 mixed_endpoint_traffic)))"
    unfolding t12 snd12 by (rule b12)
  have b14: "?c \<in> blocked_ips (snd (serve exact_ops init_manager mixed_endpoint_traffic))"
    unfolding full_snd by (rule b12)
  from full_fst log11' nb11' b12' b14 show ?thesis by blast
qed

subsection \<open>The claims on the rate limiter\<close>



text \<open>
  Claim C2. Whenever the pruned count of a client exceeds \<open>2 \<times> max_requests\<close>, the call is
  rejected and the client is in \<^verbatim>\<open>blocked_ips\<close> afterwards. From a state in which a client
  is blocked, every later call of that client, under any policy and at any time, gets the
  blocked response, which carries no \<^verbatim>\<open>retry_after\<close>; the client stays blocked, and the
  blocked set only grows. This holds for every choice of the machine operations.
\<close>

theorem blocked_client_is_rejected_forever:
  "(int (length (clean_old_requests (rate_limit_storage self c) (window_start ops t w))) > 2 * m \<longrightarrow>
      is_reject (fst (rate_limit ops self m w c t))
      \<and> c \<in> blocked_ips (snd (rate_limit ops self m w c t)))
   \<and> (c \<in> blocked_ips self \<longrightarrow>
        c \<in> blocked_ips (snd (serve ops self rs))
        \<and> (\<forall>i < length rs. req_client (rs ! i) = c \<longrightarrow>
              fst (serve ops self rs) ! i = blocked_response
              \<and> retry_hint (fst (serve ops self rs) ! i) = None))
   \<and> blocked_ips self \<subseteq> blocked_ips (snd (serve ops self rs))"
proof (intro conjI impI allI)
  assume over: "int (length (clean_old_requests (rate_limit_storage self c) (window_start ops t w)))
                  > 2 * m"
  show "is_reject (fst (rate_limit ops self m w c t))" using over by (rule escalation(1))
  show "c \<in> blocked_ips (snd (rate_limit ops self m w c t))" using over by (rule escalation(2))
next
  assume "c \<in> blocked_ips self"
  then show "c \<in> blocked_ips (snd (serve ops self rs))"
    using blocked_mono_serve by blast
next
  fix i
  assume b: "c \<in> blocked_ips self" and i: "i < length rs" and ci: "req_client (rs ! i) = c"
  show "fst (serve ops self rs) ! i = blocked_response"
    using b i ci by (rule blocked_serve_responses)
  then show "retry_hint (fst (serve ops self rs) ! i) = None"
    by (simp add: retry_hint_def blocked_response_def)
next
  show "blocked_ips self \<subseteq> blocked_ips (snd (serve ops self rs))"
    by (rule blocked_mono_serve)
qed

theorem blocked_client_is_rejected_forever_witness:
  "int (length (clean_old_requests
          (rate_limit_storage (init_manager\<lparr>rate_limit_storage := (\<lambda>_. [1, 2, 3])\<rparr>) ''c'')
          (window_start exact_ops 4 1))) > 2 * 1
   \<and> is_reject (fst (rate_limit exact_ops (init_manager\<lparr>rate_limit_storage := (\<lambda>_. [1, 2, 3])\<rparr>) 1 1 ''c'' 4))
   \<and> ''c'' \<in> blocked_ips
        (snd (rate_limit exact_ops (init_manager\<lparr>rate_limit_storage := (\<lambda>_. [1, 2, 3])\<rparr>) 1 1 ''c'' 4))
   \<and> ''c'' \<in> blocked_ips (init_manager\<lparr>blocked_ips := {''c''}\<rparr>)
   \<and> (0::nat) < length [call ''c'' 5 1 1000000]
   \<and> req_client ([call ''c'' 5 1 1000000] ! 0) = ''c''
   \<and> fst (serve exact_ops (init_manager\<lparr>blocked_ips := {''c''}\<rparr>) [call ''c'' 5 1 1000000]) ! 0
       = blocked_response
   \<and> retry_hint (fst (serve exact_ops (init_manager\<lparr>blocked_ips := {''c''}\<rparr>)
                        [call ''c'' 5 1 1000000]) ! 0) = None
   \<and> ''c'' \<in> blocked_ips
        (snd (serve exact_ops (init_manager\<lparr>blocked_ips := {''c''}\<rparr>) [call ''c'' 5 1 1000000]))"
proof -
  let ?s = "init_manager\<lparr>rate_limit_storage := (\<lambda>_. [1, 2, 3])\<rparr>"
  let ?b = "init_manager\<lparr>blocked_ips := {''c''}\<rparr>"
  let ?rs = "[call ''c'' 5 1 1000000]"
  have h1: "int (length (clean_old_requests (rate_limit_storage ?s ''c'') (window_start exact_ops 4 1)))
              > 2 * 1"
    by (simp add: init_manager_def clean_old_requests_def window_start_exact)
  have h2: "''c'' \<in> blocked_ips ?b" by simp
  have h3: "(0::nat) < length ?rs" by simp
  have h4: "req_client (?rs ! 0) = ''c''" by (simp add: call_def)
  note A = blocked_client_is_rejected_forever[where self = ?s and c = "''c''" and t = 4 and w = 1
             and m = 1 and rs = "[]" and ops = exact_ops, THEN conjunct1, rule_format, OF h1]
  note B = blocked_client_is_rejected_forever[where self = ?b and c = "''c''" and t = 0 and w = 0
             and m = 0 and rs = ?rs and ops = exact_ops, THEN conjunct2, THEN conjunct1,
             rule_format, OF h2]
  note B1 = B[THEN conjunct1]
  note B2 = B[THEN conjunct2, rule_format, OF h3 h4]
  from h1 A h2 h3 h4 B1 B2 show ?thesis by blast
qed

text \<open>
  Claim C3. Calls of one client under one fixed policy (\<open>max_requests \<ge> 0\<close>), served one after
  the other from an empty log at arbitrary times: the log never holds more than
  \<^verbatim>\<open>max_requests\<close> entries, so the escalation test never succeeds and the client is never
  blocked. The statement is for every sequence, hence for every prefix of a sequence, and
  for every choice of the machine operations.
\<close>

theorem sequential_single_policy_never_escalates:
  assumes "0 \<le> m"
    and "rate_limit_storage self c = []"
    and "c \<notin> blocked_ips self"
  shows "int (length (rate_limit_storage (snd (serve ops self (map (call c m w) ts))) c)) \<le> m
       \<and> c \<notin> blocked_ips (snd (serve ops self (map (call c m w) ts)))"
proof -
  have "int (length (rate_limit_storage self c)) \<le> m \<Longrightarrow> c \<notin> blocked_ips self \<Longrightarrow> ?thesis"
  proof (induction ts arbitrary: self)
    case Nil
    then show ?case by simp
  next
    case (Cons t ts)
    have step: "int (length (rate_limit_storage (snd (rate_limit ops self m w c t)) c)) \<le> m
       \<and> c \<notin> blocked_ips (snd (rate_limit ops self m w c t))"
      using assms(1) Cons.prems by (rule rate_limit_keeps_bound)
    show ?case
      using Cons.IH[of "snd (rate_limit ops self m w c t)"] step
      by (simp add: serve_Cons_snd admit_call del: serve.simps(2))
  qed
  then show ?thesis using assms by simp
qed

theorem sequential_single_policy_never_escalates_witness:
  "(0::int) \<le> 2 \<and> rate_limit_storage init_manager ''c'' = [] \<and> ''c'' \<notin> blocked_ips init_manager
   \<and> int (length (rate_limit_storage
         (snd (serve exact_ops init_manager (map (call ''c'' 2 1) [1, 2, 3, 4, 5]))) ''c'')) \<le> 2
   \<and> ''c'' \<notin> blocked_ips (snd (serve exact_ops init_manager (map (call ''c'' 2 1) [1, 2, 3, 4, 5])))"
proof -
  have h1: "(0::int) \<le> 2" by simp
  have h2: "rate_limit_storage init_manager ''c'' = []" by (simp add: init_manager_def)
  have h3: "''c'' \<notin> blocked_ips init_manager" by (simp add: init_manager_def)
  note T = sequential_single_policy_never_escalates[OF h1 h2 h3,
             where w = 1 and ts = "[1, 2, 3, 4, 5]" and ops = exact_ops]
  from h1 h2 h3 T show ?thesis by blast
qed

text \<open>
  Claim C4. The state holds one log per client and one blocked set, with no endpoint in the
  key: a call admitted under one endpoint's policy appends its time to the log that a call
  under any other policy prunes and counts. Eleven calls admitted under \<^verbatim>\<open>max_requests=30\<close>
  followed by one call under \<^verbatim>\<open>max_requests=5\<close> leave eleven entries in the window, more
  than \<open>2 \<times> 5\<close>: that call is rejected, the client is blocked, and later calls under
  either policy get the blocked response. The times of the run are small integers and the
  window is 60 seconds, on which the machine operations are exact.
\<close>

theorem shared_log_mixed_endpoints_escalate:
  "(fst (rate_limit ops self m1 w1 c t) = Proceed () \<longrightarrow>
      rate_limit_storage (snd (rate_limit ops self m1 w1 c t)) c
        = clean_old_requests (rate_limit_storage self c) (window_start ops t w1) @ [t]
      \<and> (window_start ops t' w2 < t \<longrightarrow>
           t \<in> set (clean_old_requests (rate_limit_storage (snd (rate_limit ops self m1 w1 c t)) c)
                       (window_start ops t' w2))))
   \<and> fst (serve exact_ops init_manager mixed_endpoint_traffic)
       = replicate 11 (Proceed ()) @ [rate_limited_response 60, blocked_response, blocked_response]
   \<and> rate_limit_storage (snd (serve exact_ops init_manager (take 11 mixed_endpoint_traffic))) ''10.0.0.1''
       = [1, 2, 3, 4, 5, 6, 7, 8, 9, 10, 11]
   \<and> ''10.0.0.1'' \<notin> blocked_ips (snd (serve exact_ops init_manager (take 11 mixed_endpoint_traffic)))
   \<and> ''10.0.0.1'' \<in> blocked_ips (snd (serve exact_ops init_manager (take 12 mixed_endpoint_traffic)))
   \<and> ''10.0.0.1'' \<in> blocked_ips (snd (serve exact_ops init_manager mixed_endpoint_traffic))"
proof -
  have general: "fst (rate_limit ops self m1 w1 c t) = Proceed () \<longrightarrow>
      rate_limit_storage (snd (rate_limit ops self m1 w1 c t)) c
        = clean_old_requests (rate_limit_storage self c) (window_start ops t w1) @ [t]
      \<and> (window_start ops t' w2 < t \<longrightarrow>
           t \<in> set (clean_old_requests (rate_limit_storage (snd (rate_limit ops self m1 w1 c t)) c)
                       (window_start ops t' w2)))"
    by (simp add: rate_limit_def window_start_def Let_def clean_old_requests_def split: if_splits)
  from general mixed_endpoint_run show ?thesis by blast
qed

theorem shared_log_mixed_endpoints_escalate_witness:
  "fst (rate_limit exact_ops init_manager 30 1 ''10.0.0.1'' 1) = Proceed ()
   \<and> window_start exact_ops 12 1 < 1
   \<and> rate_limit_storage (snd (rate_limit exact_ops init_manager 30 1 ''10.0.0.1'' 1)) ''10.0.0.1''
       = clean_old_requests (rate_limit_storage init_manager ''10.0.0.1'') (window_start exact_ops 1 1) @ [1]
   \<and> 1 \<in> set (clean_old_requests
                 (rate_limit_storage (snd (rate_limit exact_ops init_manager 30 1 ''10.0.0.1'' 1)) ''10.0.0.1'')
                 (window_start exact_ops 12 1))"
proof -
  have h1: "fst (rate_limit exact_ops init_manager 30 1 ''10.0.0.1'' 1) = Proceed ()"
    by (simp add: init_manager_def rate_limit_def clean_old_requests_def Let_def exact_ops_simps)
  have h2: "window_start exact_ops 12 1 < 1" by (simp add: window_start_exact)
  note T = shared_log_mixed_endpoints_escalate[where self = init_manager and ?m1.0 = 30 and ?w1.0 = 1
             and c = "''10.0.0.1''" and t = 1 and t' = 12 and ?w2.0 = 1 and ops = exact_ops,
             THEN conjunct1, rule_format, OF h1]
  note T1 = T[THEN conjunct1]
  note T2 = T[THEN conjunct2, rule_format, OF h2]
  from h1 h2 T1 T2 show ?thesis by blast
qed

text \<open>
  Claim C5 as stated keeps an entry equal to \<^verbatim>\<open>window_start\<close>. The comprehension tests
  \<^verbatim>\<open>req_time > window_start\<close>: with the log \<open>[40, 70]\<close>, one minute of window and the clock
  at 100 (integers, on which the machine operations are exact), the entry 40 equals
  \<^verbatim>\<open>window_start\<close> and is dropped.
\<close>

theorem pruning_boundary_counterexample:
  "window_start exact_ops 100 1 = 40 \<and> (40::real) \<ge> 100 - 1 * 60 \<and> 40 \<in> set [40, 70::real]
   \<and> ''c'' \<notin> blocked_ips (init_manager\<lparr>rate_limit_storage := (\<lambda>_. [40, 70])\<rparr>)
   \<and> clean_old_requests [40, 70] (window_start exact_ops 100 1) = [70]
   \<and> rate_limit_storage
        (snd (rate_limit exact_ops (init_manager\<lparr>rate_limit_storage := (\<lambda>_. [40, 70])\<rparr>) 10 1 ''c'' 100))
        ''c'' = [70, 100]"
  by (simp add: init_manager_def rate_limit_def clean_old_requests_def Let_def window_start_def
        exact_ops_simps)

text \<open>
  Claim C5, amended. Let \<^verbatim>\<open>window_start\<close> be the value the code computes for
  \<^verbatim>\<open>current_time - window_minutes * 60\<close> in machine arithmetic. For a client that is not
  blocked, the pruning step keeps, in order, exactly the entries with
  \<open>timestamp > window_start\<close> and drops every other entry, so an entry equal to
  \<^verbatim>\<open>window_start\<close> is dropped; the stored log is the pruned one, followed by the current
  time when the call proceeds. When no logged entry is later than the clock, the pruned log
  lies in the half-open interval from \<^verbatim>\<open>window_start\<close> (excluded) to the clock (included).
  This holds for every choice of the machine operations.
\<close>

theorem pruning_drops_up_to_window_start:
  assumes "c \<notin> blocked_ips self"
  shows "rate_limit_storage (snd (rate_limit ops self m w c now)) c
           = filter (\<lambda>t. \<not> t \<le> window_start ops now w) (rate_limit_storage self c)
             @ (if fst (rate_limit ops self m w c now) = Proceed () then [now] else [])
       \<and> clean_old_requests (rate_limit_storage self c) (window_start ops now w)
           = filter (\<lambda>t. \<not> t \<le> window_start ops now w) (rate_limit_storage self c)
       \<and> (\<forall>t \<in> set (rate_limit_storage self c).
             t \<in> set (clean_old_requests (rate_limit_storage self c) (window_start ops now w))
               \<longleftrightarrow> window_start ops now w < t)
       \<and> ((\<forall>t \<in> set (rate_limit_storage self c). t \<le> now) \<longrightarrow>
          (\<forall>t \<in> set (clean_old_requests (rate_limit_storage self c) (window_start ops now w)).
              window_start ops now w < t \<and> t \<le> now))"
  using assms
  by (auto simp add: rate_limit_def window_start_def Let_def clean_old_requests_def not_le)

theorem pruning_drops_up_to_window_start_witness:
  "''c'' \<notin> blocked_ips (init_manager\<lparr>rate_limit_storage := (\<lambda>_. [40, 70])\<rparr>)
   \<and> window_start exact_ops 100 1 = 40
   \<and> rate_limit_storage
         (snd (rate_limit exact_ops (init_manager\<lparr>rate_limit_storage := (\<lambda>_. [40, 70])\<rparr>) 10 1 ''c'' 100))
         ''c''
       = [70, 100]
   \<and> clean_old_requests [40, 70] (window_start exact_ops 100 1) = [70]
   \<and> (70::real) \<in> set [40, 70] \<and> window_start exact_ops 100 1 < 70 \<and> (70::real) \<le> 100
   \<and> (40::real) \<in> set [40, 70] \<and> \<not> window_start exact_ops 100 1 < 40"
proof -
  let ?s = "init_manager\<lparr>rate_limit_storage := (\<lambda>_. [40, 70])\<rparr>"
  have h: "''c'' \<notin> blocked_ips ?s" by (simp add: init_manager_def)
  have ws: "window_start exact_ops 100 1 = 40" by (simp add: window_start_exact)
  have p: "fst (rate_limit exact_ops ?s 10 1 ''c'' 100) = Proceed ()"
    by (simp add: init_manager_def rate_limit_def clean_old_requests_def Let_def exact_ops_simps)
  have l: "rate_limit_storage ?s ''c'' = [40, 70]" by simp
  note T = pruning_drops_up_to_window_start[OF h, where m = 10 and w = 1 and now = 100
             and ops = exact_ops]
  have a: "rate_limit_storage (snd (rate_limit exact_ops ?s 10 1 ''c'' 100)) ''c'' = [70, 100]"
    using T[THEN conjunct1] by (simp only: l p ws) simp
  have b: "clean_old_requests [40, 70] (window_start exact_ops 100 1) = [70]"
    using T[THEN conjunct2, THEN conjunct1] by (simp only: l ws) simp
  from h a b ws show ?thesis by simp
qed

section \<open>Properties of the validators\<close>

subsection \<open>validate_input\<close>

lemma py_strip_length: "length (py_strip s) \<le> length s"
proof -
  have "length (py_strip s) \<le> length (dropWhile py_isspace s)"
    unfolding py_strip_def using length_dropWhile_le[of py_isspace "rev (dropWhile py_isspace s)"]
    by simp
  also have "\<dots> \<le> length s" by (rule length_dropWhile_le)
  finally show ?thesis .
qed

lemma py_strip_set: "set (py_strip s) \<subseteq> set s"
proof
  fix x assume "x \<in> set (py_strip s)"
  then have "x \<in> set (dropWhile py_isspace (rev (dropWhile py_isspace s)))"
    by (simp add: py_strip_def)
  then have "x \<in> set (rev (dropWhile py_isspace s))" by (rule set_dropWhileD)
  then have "x \<in> set (dropWhile py_isspace s)" by simp
  then show "x \<in> set s" by (rule set_dropWhileD)
qed

lemma re_sub_class_length: "length (re_sub_class cls s) \<le> length s"
  by (simp add: re_sub_class_def)

lemma re_sub_class_set: "set (re_sub_class cls s) = {c \<in> set s. \<not> cls c}"
  by (simp add: re_sub_class_def)

lemma truncate_nonneg:
  "0 \<le> n \<Longrightarrow> (if int (length s) > n then py_slice_to s n else s) = take (nat n) s"
  by (simp add: py_slice_to_def)

lemma is_control_char_spec: "is_control_char c \<longleftrightarrow> ord c \<in> spec_control_codes"
  by (auto simp add: is_control_char_def spec_control_codes_def)

lemma validate_input_unfold:
  assumes "0 \<le> n"
  shows "validate_input v n flag =
     (if \<not> truthy v then []
      else py_strip ((if flag then (\<lambda>x. x) else re_sub_class is_special_char)
                       (take (nat n) (re_sub_class is_control_char (py_str v)))))"
  using assms by (simp add: validate_input_def Let_def truncate_nonneg del: truthy.simps)

text \<open>
  Claim C6. For every input (a string or \<^verbatim>\<open>None\<close>), every \<open>max_length > 0\<close> and either
  flag, the result of \<^verbatim>\<open>validate_input\<close> has at most \<open>max_length\<close> characters; when special
  characters are not allowed, none of \<^verbatim>\<open>< > " ' ( ) & +\<close> occurs in it.
\<close>

theorem validate_input_length_and_denylist:
  assumes "0 < n"
  shows "int (length (validate_input v n flag)) \<le> n
       \<and> (\<not> flag \<longrightarrow>
            set (validate_input v n flag)
              \<inter> {CHR ''<'', CHR ''>'', CHR 0x22, CHR 0x27, CHR ''('', CHR '')'', CHR ''&'', CHR ''+''} = {})"
proof (cases "truthy v")
  case False
  then show ?thesis using assms by (simp add: validate_input_def)
next
  case True
  let ?a = "take (nat n) (re_sub_class is_control_char (py_str v))"
  let ?c = "(if flag then (\<lambda>x. x) else re_sub_class is_special_char) ?a"
  have n0: "0 \<le> n" using assms by simp
  have eq: "validate_input v n flag = py_strip ?c"
    using True validate_input_unfold[OF n0, of v flag] by simp
  have la: "length ?a \<le> nat n" by simp
  have lc: "length ?c \<le> length ?a"
    using re_sub_class_length[of is_special_char ?a] by (cases flag) simp_all
  have "length (py_strip ?c) \<le> nat n"
    using py_strip_length[of ?c] lc la by linarith
  then have len: "int (length (validate_input v n flag)) \<le> n"
    using n0 eq by simp
  have deny: "set (validate_input v n flag)
      \<inter> {CHR ''<'', CHR ''>'', CHR 0x22, CHR 0x27, CHR ''('', CHR '')'', CHR ''&'', CHR ''+''} = {}"
    if nf: "\<not> flag"
  proof -
    have "set (py_strip ?c) \<subseteq> set (re_sub_class is_special_char ?a)"
      using nf py_strip_set[of ?c] by simp
    then have ns: "\<forall>x \<in> set (py_strip ?c). x \<notin> set special_chars"
      by (auto simp add: re_sub_class_set is_special_char_def)
    have sub: "{CHR ''<'', CHR ''>'', CHR 0x22, CHR 0x27, CHR ''('', CHR '')'', CHR ''&'', CHR ''+''}
                 \<subseteq> set special_chars"
      by (simp add: special_chars_def)
    show ?thesis
      unfolding eq using ns sub by blast
  qed
  from len deny show ?thesis by blast
qed

theorem validate_input_length_and_denylist_witness:
  "(0::int) < 6 \<and> \<not> False
   \<and> validate_input (PyStr ''  <a>(b)&+c  '') 6 False = ''a''
   \<and> int (length (validate_input (PyStr ''  <a>(b)&+c  '') 6 False)) \<le> 6
   \<and> set (validate_input (PyStr ''  <a>(b)&+c  '') 6 False)
        \<inter> {CHR ''<'', CHR ''>'', CHR 0x22, CHR 0x27, CHR ''('', CHR '')'', CHR ''&'', CHR ''+''} = {}"
proof -
  have h: "(0::int) < 6" by simp
  have v: "validate_input (PyStr ''  <a>(b)&+c  '') 6 False = ''a''"
    by (simp add: validate_input_def re_sub_class_def is_control_char_def ord_def py_strip_def
          py_isspace_def is_special_char_def special_chars_def py_slice_to_def)
  note T = validate_input_length_and_denylist[OF h, where v = "PyStr ''  <a>(b)&+c  ''" and flag = False]
  from h v T show ?thesis by blast
qed

text \<open>
  Claim C7 as stated removes in step (c) exactly \<^verbatim>\<open>< > " ' ( ) & +\<close> and no other character.
  The class in the source also holds the semicolon: on \<^verbatim>\<open>a;b\<close> the code returns \<^verbatim>\<open>ab\<close>,
  the pipeline of the specification \<^verbatim>\<open>a;b\<close>.
\<close>

theorem sanitize_denylist_counterexample:
  "validate_input (PyStr ''a;b'') 10 False = ''ab'' \<and> sanitize_spec (PyStr ''a;b'') 10 False = ''a;b''"
  by (simp add: validate_input_def re_sub_class_def is_control_char_def ord_def py_strip_def
        py_isspace_def is_special_char_def special_chars_def sanitize_spec_def sanitize_pipeline_def
        spec_denylist_def spec_control_codes_def)

text \<open>
  Claim C7, amended. For \<open>max_length \<ge> 0\<close>, \<^verbatim>\<open>validate_input\<close> is the pipeline of the
  specification in its order (control characters, truncation, special characters, strip)
  with the nine characters \<^verbatim>\<open>< > " ' ; ( ) & +\<close> removed in step (c); \<^verbatim>\<open>None\<close> and the empty
  string give the empty string, and the function is total.
\<close>

theorem validate_input_is_pipeline_with_semicolon:
  assumes "0 \<le> n"
  shows "validate_input v n flag = sanitize_pipeline (CHR '';'' # spec_denylist) v n flag"
proof (cases v)
  case PyNone
  then show ?thesis by (simp add: validate_input_def sanitize_pipeline_def)
next
  case (PyStr s)
  have ctl: "re_sub_class is_control_char s = filter (\<lambda>c. ord c \<notin> spec_control_codes) s"
    by (simp add: re_sub_class_def is_control_char_spec)
  have spc: "re_sub_class is_special_char xs = filter (\<lambda>x. x \<notin> set (CHR '';'' # spec_denylist)) xs" for xs
    unfolding re_sub_class_def is_special_char_def
    by (rule filter_cong) (auto simp add: special_chars_def spec_denylist_def)
  show ?thesis
    using validate_input_unfold[OF assms, of v flag]
    by (simp add: PyStr sanitize_pipeline_def Let_def ctl spc)
qed

theorem validate_input_is_pipeline_with_semicolon_witness:
  "(0::int) \<le> 10
   \<and> validate_input (PyStr ''a;b'') 10 False = sanitize_pipeline (CHR '';'' # spec_denylist) (PyStr ''a;b'') 10 False
   \<and> sanitize_pipeline (CHR '';'' # spec_denylist) (PyStr ''a;b'') 10 False = ''ab''"
proof -
  have h: "(0::int) \<le> 10" by simp
  have v: "sanitize_pipeline (CHR '';'' # spec_denylist) (PyStr ''a;b'') 10 False = ''ab''"
    by (simp add: sanitize_pipeline_def spec_denylist_def spec_control_codes_def ord_def py_strip_def
          py_isspace_def)
  note T = validate_input_is_pipeline_with_semicolon[OF h, where v = "PyStr ''a;b''" and flag = False]
  from h v T show ?thesis by blast
qed

subsection \<open>validate_symbol\<close>

lemma bounded_run_then_eol:
  "match_here at_start [Rep AsciiAlnum lo (Some hi), Eol] s \<longleftrightarrow>
     (\<exists>b. (s = b \<or> s = b @ [CHR 0x0A]) \<and> lo \<le> length b \<and> length b \<le> hi
          \<and> (\<forall>c \<in> set b. is_ascii_alnum c))"
proof (induction s arbitrary: lo hi at_start)
  case Nil
  show ?case by auto
next
  case (Cons c cs)
  let ?R = "\<lambda>lo hi s. \<exists>b. (s = b \<or> s = b @ [CHR 0x0A]) \<and> lo \<le> length b \<and> length b \<le> hi
          \<and> (\<forall>c \<in> set b. is_ascii_alnum c)"
  have step: "?R lo hi (c # cs) \<longleftrightarrow>
        (lo = 0 \<and> c # cs = [CHR 0x0A]) \<or> (hi \<noteq> 0 \<and> is_ascii_alnum c \<and> ?R (lo - 1) (hi - 1) cs)"
  proof
    assume "?R lo hi (c # cs)"
    then obtain b where b: "c # cs = b \<or> c # cs = b @ [CHR 0x0A]" "lo \<le> length b" "length b \<le> hi"
      "\<forall>c \<in> set b. is_ascii_alnum c" by blast
    show "(lo = 0 \<and> c # cs = [CHR 0x0A]) \<or> (hi \<noteq> 0 \<and> is_ascii_alnum c \<and> ?R (lo - 1) (hi - 1) cs)"
    proof (cases b)
      case Nil
      with b show ?thesis by simp
    next
      case (Cons x b')
      with b have "x = c" "cs = b' \<or> cs = b' @ [CHR 0x0A]" by auto
      moreover have "lo - 1 \<le> length b'" "length b' \<le> hi - 1" "hi \<noteq> 0" "is_ascii_alnum c"
        "\<forall>c \<in> set b'. is_ascii_alnum c"
        using b Cons \<open>x = c\<close> by auto
      ultimately show ?thesis by blast
    qed
  next
    assume "(lo = 0 \<and> c # cs = [CHR 0x0A]) \<or> (hi \<noteq> 0 \<and> is_ascii_alnum c \<and> ?R (lo - 1) (hi - 1) cs)"
    then show "?R lo hi (c # cs)"
    proof
      assume "lo = 0 \<and> c # cs = [CHR 0x0A]"
      then show ?thesis by (intro exI[of _ "[]"]) simp
    next
      assume a: "hi \<noteq> 0 \<and> is_ascii_alnum c \<and> ?R (lo - 1) (hi - 1) cs"
      then obtain b' where b': "cs = b' \<or> cs = b' @ [CHR 0x0A]" "lo - 1 \<le> length b'"
        "length b' \<le> hi - 1" "\<forall>c \<in> set b'. is_ascii_alnum c" by blast
      show ?thesis
        using a b' by (intro exI[of _ "c # b'"]) auto
    qed
  qed
  have "match_here at_start [Rep AsciiAlnum lo (Some hi), Eol] (c # cs) \<longleftrightarrow>
        (lo = 0 \<and> c # cs = [CHR 0x0A])
        \<or> (hi \<noteq> 0 \<and> is_ascii_alnum c \<and> match_here False [Rep AsciiAlnum (lo - 1) (Some (hi - 1)), Eol] cs)"
    by simp
  then show ?case
    unfolding step Cons.IH[of False "lo - 1" "hi - 1"] .
qed

lemma validate_symbol_characterisation:
  "validate_symbol (PyStr s) \<longleftrightarrow>
     (\<exists>b. (s = b \<or> s = b @ [CHR 0x0A]) \<and> 1 \<le> length b \<and> length b \<le> 10
          \<and> (\<forall>c \<in> set b. is_ascii_alnum c))"
proof (cases "s = []")
  case True
  then show ?thesis by (simp add: validate_symbol_def)
next
  case False
  then have "validate_symbol (PyStr s) \<longleftrightarrow> match_here True [Rep AsciiAlnum 1 (Some 10), Eol] s"
    by (simp add: validate_symbol_def re_match_def symbol_pattern_def)
  then show ?thesis
    unfolding bounded_run_then_eol .
qed

text \<open>
  Claim C8. \<^verbatim>\<open>validate_symbol\<close> is meant to accept exactly the strings of one to ten ASCII
  letters and digits. Evaluated on the examples of the specification it answers as claimed,
  but it also accepts \<^verbatim>\<open>AAPL\<close> followed by a newline: \<^verbatim>\<open>$\<close> matches before a final newline
  (see \<open>validate_symbol_characterisation\<close> for all strings).
\<close>

theorem validate_symbol_accepts_trailing_newline:
  "validate_symbol (PyStr (''AAPL'' @ [CHR 0x0A])) = True
   \<and> \<not> is_ascii_alnum (CHR 0x0A)
   \<and> validate_symbol (PyStr ''AAPL'') = True
   \<and> validate_symbol (PyStr ''AAPL.US'') = False
   \<and> validate_symbol (PyStr ''BRK-B'') = False
   \<and> validate_symbol (PyStr '''') = False
   \<and> validate_symbol PyNone = False
   \<and> validate_symbol (PyStr (replicate 11 CHR ''A'')) = False"
  by (simp add: validate_symbol_def symbol_pattern_def re_match_def is_ascii_alnum_def ord_def
        numeral_eq_Suc)

subsection \<open>check_suspicious_activity\<close>




lemmas scan_eval = check_suspicious_activity_def suspicious_patterns_def py_lower_def lower_char_def
  ord_def char_of_def bit_Suc_0_iff re_search_def lits_def backslash_def is_word_char_def py_isspace_def




subsection \<open>require_valid_input\<close>

text \<open>
  On a JSON object and on a form the decorator does what the specification says: a missing
  field is rejected with status 400 and the missing-field message; otherwise the scan runs
  on the raw text \<^verbatim>\<open>str(value)\<close>, and a suspicious value is rejected with status 400 and the
  fixed body \<^verbatim>\<open>{"error": "Invalid input detected"}\<close>; only a clean value lets the wrapped
  function run, on the request whose field has been replaced by the sanitized value.
\<close>

lemma require_valid_input_fields:
  assumes "get_data request = Inr data"
    and "data = JsonData (JsonObject d) \<or> data = FormData d'"
  shows "(field_in field_name data = Inr False \<longrightarrow>
            require_valid_input field_name max_length allow request
              = Inr (Reject [(''error'', JStr (''Missing required field: '' @ field_name))] 400, []))
       \<and> (\<forall>v. get_item data field_name = Inr v \<longrightarrow>
            (fst (check_suspicious_activity (value_str v)) \<longrightarrow>
               map_sum id fst (require_valid_input field_name max_length allow request)
                 = Inr (Reject [(''error'', JStr ''Invalid input detected'')] 400))
            \<and> (\<not> fst (check_suspicious_activity (value_str v)) \<longrightarrow>
               require_valid_input field_name max_length allow request
                 = Inr (Proceed (update_request_data request field_name
                                   (validate_input_value v max_length allow)), [])))"
proof (intro conjI allI impI)
  assume "field_in field_name data = Inr False"
  then show "require_valid_input field_name max_length allow request
              = Inr (Reject [(''error'', JStr (''Missing required field: '' @ field_name))] 400, [])"
    using assms(1) by (simp add: require_valid_input_def)
next
  fix v
  assume v: "get_item data field_name = Inr v"
  have present: "field_in field_name data = Inr True"
    using assms(2) v by (auto split: option.splits)
  {
    assume "fst (check_suspicious_activity (value_str v))"
    then show "map_sum id fst (require_valid_input field_name max_length allow request)
                 = Inr (Reject [(''error'', JStr ''Invalid input detected'')] 400)"
      using assms(1) v present by (simp add: require_valid_input_def case_prod_beta)
  next
    assume "\<not> fst (check_suspicious_activity (value_str v))"
    then show "require_valid_input field_name max_length allow request
                 = Inr (Proceed (update_request_data request field_name
                                   (validate_input_value v max_length allow)), [])"
      using assms(1) v present by (simp add: require_valid_input_def case_prod_beta)
  }
qed

lemma updated_field_is_sanitized:
  "is_json request \<Longrightarrow> json_body request = Some (JsonObject d) \<Longrightarrow>
     get_data (update_request_data request field_name cleaned)
       = Inr (JsonData (JsonObject (d(field_name \<mapsto> Val (PyStr cleaned)))))"
  "\<not> is_json request \<Longrightarrow>
     get_data (update_request_data request field_name cleaned)
       = Inr (FormData ((form request)(field_name \<mapsto> cleaned)))"
  by (simp_all add: get_data_def update_request_data_def)

lemma generic_body_names_no_pattern:
  "\<forall>p \<in> set suspicious_patterns. \<not> contains ''Invalid input detected'' (source p)"
  by (simp add: suspicious_patterns_def backslash_def)

lemma require_valid_input_examples:
  "require_valid_input ''query'' 100 False
     \<lparr>is_json = True, json_body = Some (JsonObject Map.empty), form = Map.empty\<rparr>
     = Inr (Reject [(''error'', JStr ''Missing required field: query'')] 400, [])"
  "map_sum id fst (require_valid_input ''query'' 100 False
     \<lparr>is_json = True,
      json_body = Some (JsonObject [''query'' \<mapsto> Val (PyStr ''<script>alert(1)</script>'')]),
      form = Map.empty\<rparr>)
     = Inr (Reject [(''error'', JStr ''Invalid input detected'')] 400)"
  "require_valid_input ''query'' 100 False
     \<lparr>is_json = False, json_body = None, form = [''query'' \<mapsto> ''  apple; inc  '']\<rparr>
     = Inr (Proceed \<lparr>is_json = False, json_body = None, form = [''query'' \<mapsto> ''apple inc'']\<rparr>, [])"
  by (simp_all add: require_valid_input_def get_data_def update_request_data_def case_prod_beta
        scan_eval validate_input_def re_sub_class_def is_control_char_def py_strip_def
        is_special_char_def special_chars_def py_slice_to_def)

text \<open>
  Claim C10. A required field that is absent must be answered with the 400 missing-field
  rejection. When the JSON body is not an object the decorator raises instead: on
  \<^verbatim>\<open>null\<close>, a number or a boolean the test \<^verbatim>\<open>field_name not in data\<close> raises
  \<^verbatim>\<open>TypeError\<close>; on a string or an array that contains the field name the test passes and
  \<^verbatim>\<open>data[field_name]\<close> raises \<^verbatim>\<open>TypeError\<close>. Nothing catches the exception, and the
  request is answered with status 500. On an object without the field the answer is the
  400 rejection.
\<close>

theorem require_valid_input_raises_on_non_object_body:
  "require_valid_input ''query'' 100 False
     \<lparr>is_json = True, json_body = Some JsonNull, form = Map.empty\<rparr> = Inl TypeError
   \<and> require_valid_input ''query'' 100 False
     \<lparr>is_json = True, json_body = Some JsonScalar, form = Map.empty\<rparr> = Inl TypeError
   \<and> require_valid_input ''query'' 100 False
     \<lparr>is_json = True, json_body = Some (JsonString ''query''), form = Map.empty\<rparr> = Inl TypeError
   \<and> require_valid_input ''query'' 100 False
     \<lparr>is_json = True, json_body = Some (JsonArray [Val (PyStr ''query'')]), form = Map.empty\<rparr>
       = Inl TypeError
   \<and> require_valid_input ''query'' 100 False
     \<lparr>is_json = True, json_body = Some (JsonObject Map.empty), form = Map.empty\<rparr>
       = Inr (Reject [(''error'', JStr ''Missing required field: query'')] 400, [])"
  by (simp add: require_valid_input_def get_data_def)

end
